theory Spec2Isabelle
  imports Complex_Main "HOL-Library.Word"
begin

section \<open>The sketch \<open>fish.cpp\<close>: a sine sweep of one Dynamixel servo\<close>

text \<open>
  The sketch has two functions, \<open>setup\<close> and \<open>loop\<close>. The Arduino core calls
  \<open>setup\<close> once and then \<open>loop\<close> again and again. Everything the sketch does to the
  outside world is a call into the serial port or into the motor driver, so the model
  records these calls, in program order, in a trace.

  Numbers: \<open>unsigned long\<close> is 32 bits wide on the ESP32-S3 and is a \<open>32 word\<close>;
  \<open>uint8_t\<close> is an \<open>8 word\<close>. The conversion \<open>(int)position\<close> is modelled as C
  defines it, truncation towards zero.

  The arithmetic of lines 48 and 51 appears twice. The machine that runs \<open>setup\<close> and
  \<open>loop\<close> carries \<open>t\<close> and \<open>position\<close> as exact real numbers (\<open>elapsed\<close>,
  \<open>goal_position\<close>): this is the sine expression itself, and it is enough for the order
  of the calls, the start time and the wrap-around of the tick counter. The functions
  \<open>elapsed_f\<close>, \<open>position_f\<close> and \<open>goal_sent\<close> evaluate the same lines in the
  precisions of the source's types, \<open>float\<close> for \<open>t\<close> and \<open>position\<close> and
  \<open>double\<close> in between; what is said about the integer that the code sends at a given
  elapsed time is said of \<open>goal_sent\<close>.
\<close>

subsection \<open>Constants (lines 5--18)\<close>

type_synonym ulong = "32 word"

definition DXL_TX_PIN :: nat where "DXL_TX_PIN = 43"
definition DXL_RX_PIN :: nat where "DXL_RX_PIN = 44"
definition DXL_DIR_PIN :: nat where "DXL_DIR_PIN = 5"
definition BAUDRATE :: nat where "BAUDRATE = 57600"

definition MOTOR_ID :: "8 word" where "MOTOR_ID = 1"
definition DXL_PROTOCOL_VERSION :: real where "DXL_PROTOCOL_VERSION = 2"

definition CENTER_POS :: real where "CENTER_POS = 2048"
definition AMPLITUDE :: real where "AMPLITUDE = 400"
definition SPEED :: real where "SPEED = 1 / 2"

subsection \<open>Calls into the serial port and the motor driver\<close>

datatype operating_mode = OP_POSITION

datatype control_table_item = PROFILE_VELOCITY | PROFILE_ACCELERATION

datatype event =
    SerialBegin nat                                  \<comment> \<open>\<open>Serial.begin(baud)\<close>\<close>
  | DxlSerialBegin nat nat nat                       \<comment> \<open>\<open>DXL_SERIAL.begin(baud, SERIAL_8N1, rx, tx)\<close>\<close>
  | DxlBegin nat                                     \<comment> \<open>\<open>dxl.begin(baud)\<close>\<close>
  | SetPortProtocolVersion real                      \<comment> \<open>\<open>dxl.setPortProtocolVersion(v)\<close>\<close>
  | Ping "8 word"                                    \<comment> \<open>\<open>dxl.ping(id)\<close>\<close>
  | TorqueOff "8 word"                               \<comment> \<open>\<open>dxl.torqueOff(id)\<close>\<close>
  | SetOperatingMode "8 word" operating_mode         \<comment> \<open>\<open>dxl.setOperatingMode(id, mode)\<close>\<close>
  | TorqueOn "8 word"                                \<comment> \<open>\<open>dxl.torqueOn(id)\<close>\<close>
  | WriteControlTableItem control_table_item "8 word" int
                                                     \<comment> \<open>\<open>dxl.writeControlTableItem(item, id, value)\<close>\<close>
  | SetGoalPosition "8 word" int                     \<comment> \<open>\<open>dxl.setGoalPosition(id, value)\<close>\<close>
  | SerialPrint string                               \<comment> \<open>\<open>Serial.print(text)\<close>\<close>
  | SerialPrintln string                             \<comment> \<open>\<open>Serial.println(text)\<close>\<close>
  | SerialPrintlnInt int                             \<comment> \<open>\<open>Serial.println(int)\<close>\<close>
  | Delay nat                                        \<comment> \<open>\<open>delay(ms)\<close>\<close>

subsection \<open>The state of the sketch\<close>

text \<open>
  \<open>pc\<close> is where control is: before \<open>setup\<close>, in the empty \<open>while (true);\<close> of
  line 30, or between two calls of \<open>loop\<close>. The function-local \<open>static\<close> of line 45 is
  a word of storage together with the flag that says whether its initialiser has run.
  \<open>reads\<close> counts the calls of \<open>millis()\<close> so far.
\<close>

datatype location = At_setup | Spin | At_loop

record state =
  pc :: location
  startTime_set :: bool
  startTime :: ulong
  reads :: nat
  trace :: "event list"

definition boot :: state where
  "boot = \<lparr>pc = At_setup, startTime_set = False, startTime = 0, reads = 0, trace = []\<rparr>"

subsection \<open>The tick counter\<close>

text \<open>
  Modelled from the spec: \<open>millis()\<close> belongs to the Arduino core, which is not part of
  the repository; the spec calls it a hardware tick counter. The environment is a function
  \<open>up\<close>: \<open>up k\<close> is the number of milliseconds since boot at the moment of call number
  \<open>k\<close> (counted from 0) of \<open>millis()\<close>. The call returns that number as an
  \<open>unsigned long\<close>, so it wraps around at \<open>2 ^ 32\<close>.
\<close>

definition millis :: "(nat \<Rightarrow> nat) \<Rightarrow> nat \<Rightarrow> ulong" where
  "millis up k = word_of_nat (up k)"

subsection \<open>The arithmetic of lines 48--54\<close>

text \<open>C's conversion of a floating-point value to \<open>int\<close> discards the fraction.\<close>

definition int_cast :: "real \<Rightarrow> int" where
  "int_cast x = (if 0 \<le> x then \<lfloor>x\<rfloor> else \<lceil>x\<rceil>)"

text \<open>Line 48: \<open>(millis() - startTime) / 1000.0\<close>, an unsigned 32-bit difference.\<close>

definition elapsed :: "ulong \<Rightarrow> ulong \<Rightarrow> real" where
  "elapsed now start = real (unat (now - start)) / 1000"

text \<open>
  Lines 51 and 54: the value \<open>(int)position\<close> handed to \<open>setGoalPosition\<close>, as a
  function of the elapsed time \<open>t\<close>.
\<close>

definition goal_position :: "real \<Rightarrow> int" where
  "goal_position t = int_cast (CENTER_POS + AMPLITUDE * sin (2 * pi * SPEED * t))"

subsection \<open>\<open>setup\<close> (lines 22--42)\<close>

text \<open>
  The function is called \<open>setup_fn\<close> here, \<open>setup\<close> being a keyword of Isabelle.
  \<open>responds\<close> is what \<open>dxl.ping(MOTOR_ID)\<close> returns. When it is false, \<open>setup\<close>
  prints and enters \<open>while (true);\<close>: it does not return.
\<close>

definition setup_fn :: "bool \<Rightarrow> state \<Rightarrow> state" where
  "setup_fn responds s =
    (let s1 = s\<lparr>trace := trace s @
                 [SerialBegin 115200,
                  DxlSerialBegin BAUDRATE DXL_RX_PIN DXL_TX_PIN,
                  DxlBegin BAUDRATE,
                  SetPortProtocolVersion DXL_PROTOCOL_VERSION,
                  Ping MOTOR_ID]\<rparr>
     in if \<not> responds
        then s1\<lparr>trace := trace s1 @ [SerialPrintln ''Motor not responding. Check wiring and ID.''],
                pc := Spin\<rparr>
        else s1\<lparr>trace := trace s1 @
                 [TorqueOff MOTOR_ID,
                  SetOperatingMode MOTOR_ID OP_POSITION,
                  TorqueOn MOTOR_ID,
                  WriteControlTableItem PROFILE_VELOCITY MOTOR_ID 400,
                  WriteControlTableItem PROFILE_ACCELERATION MOTOR_ID 50,
                  SerialPrintln ''Sine wave motion initialized.''],
                pc := At_loop\<rparr>)"

subsection \<open>\<open>loop\<close> (lines 44--61)\<close>

text \<open>Line 45: the initialiser of the \<open>static\<close> runs when control first passes it.\<close>

definition init_startTime :: "(nat \<Rightarrow> nat) \<Rightarrow> state \<Rightarrow> state" where
  "init_startTime up s =
    (if startTime_set s then s
     else s\<lparr>startTime_set := True, startTime := millis up (reads s), reads := Suc (reads s)\<rparr>)"

definition loop :: "(nat \<Rightarrow> nat) \<Rightarrow> state \<Rightarrow> state" where
  "loop up s =
    (let s1 = init_startTime up s;
         t = real (unat (millis up (reads s1) - startTime s1)) / 1000;
         s2 = s1\<lparr>reads := Suc (reads s1)\<rparr>;
         position = CENTER_POS + AMPLITUDE * sin (2 * pi * SPEED * t)
     in s2\<lparr>trace := trace s2 @
              [SetGoalPosition MOTOR_ID (int_cast position),
               SerialPrint ''Goal: '',
               SerialPrintlnInt (int_cast position),
               Delay 20]\<rparr>)"

text \<open>The local \<open>t\<close> of line 48 in the call of \<open>loop\<close> that starts in state \<open>s\<close>.\<close>

definition loop_t :: "(nat \<Rightarrow> nat) \<Rightarrow> state \<Rightarrow> real" where
  "loop_t up s =
    (let s1 = init_startTime up s in elapsed (millis up (reads s1)) (startTime s1))"

subsection \<open>The whole program\<close>

text \<open>
  One step of the machine: the call of \<open>setup\<close>, one turn of the empty loop of line 30,
  or one call of \<open>loop\<close>. \<open>run responds up n\<close> is the state after \<open>n\<close> steps from boot.
\<close>

definition step :: "bool \<Rightarrow> (nat \<Rightarrow> nat) \<Rightarrow> state \<Rightarrow> state" where
  "step responds up s =
    (case pc s of
       At_setup \<Rightarrow> setup_fn responds s
     | Spin \<Rightarrow> s
     | At_loop \<Rightarrow> loop up s)"

primrec run :: "bool \<Rightarrow> (nat \<Rightarrow> nat) \<Rightarrow> nat \<Rightarrow> state" where
  "run responds up 0 = boot"
| "run responds up (Suc n) = step responds up (run responds up n)"

text \<open>
  \<open>iter_t up k\<close> is the elapsed time \<open>t\<close> computed by call number \<open>k\<close> (from 0) of
  \<open>loop\<close>, on a start where the motor answered the ping.
\<close>

definition iter_t :: "(nat \<Rightarrow> nat) \<Rightarrow> nat \<Rightarrow> real" where
  "iter_t up k = loop_t up (run True up (Suc k))"

text \<open>The values written to one control table item, in order.\<close>

fun writes_of :: "control_table_item \<Rightarrow> event list \<Rightarrow> int list" where
  "writes_of i [] = []"
| "writes_of i (WriteControlTableItem j m v # es) =
     (if i = j then v # writes_of i es else writes_of i es)"
| "writes_of i (e # es) = writes_of i es"

text \<open>The goal positions written and the integers printed, in order.\<close>

fun goals_written :: "event list \<Rightarrow> int list" where
  "goals_written [] = []"
| "goals_written (SetGoalPosition m g # es) = g # goals_written es"
| "goals_written (e # es) = goals_written es"

fun ints_printed :: "event list \<Rightarrow> int list" where
  "ints_printed [] = []"
| "ints_printed (SerialPrintlnInt g # es) = g # ints_printed es"
| "ints_printed (e # es) = ints_printed es"

text \<open>The calls that make the motor hold or move to a position.\<close>

fun drives_motor :: "event \<Rightarrow> bool" where
  "drives_motor (TorqueOn m) = True"
| "drives_motor (SetOperatingMode m md) = True"
| "drives_motor (SetGoalPosition m g) = True"
| "drives_motor e = False"

subsection \<open>Three tick sequences\<close>

text \<open>
  The first call of \<open>loop\<close> reads the counter twice (calls 0 and 1 of \<open>millis()\<close>),
  every later call once. In \<open>ticks_1ms\<close> the counter advances by one between the two
  reads of the first call. In \<open>every_20ms\<close> the first call of \<open>loop\<close> runs one second
  after boot, its two reads agree, and the calls of \<open>loop\<close> are 20 ms apart. \<open>late_boot\<close>
  is the same with the first call \<open>296\<close> ms before the counter reaches \<open>2 ^ 32\<close>.
\<close>

definition ticks_1ms :: "nat \<Rightarrow> nat" where
  "ticks_1ms k = 999 + k"

definition every_20ms :: "nat \<Rightarrow> nat" where
  "every_20ms k = 1000 + 20 * (k - 1)"

definition late_boot :: "nat \<Rightarrow> nat" where
  "late_boot k = 4294967000 + 20 * (k - 1)"

subsection \<open>Lines 48--54 in single and double precision\<close>

text \<open>
  A binary floating-point format with \<open>p\<close> significant bits rounds a real number to the
  nearest multiple of \<open>2 ^ (e - p + 1)\<close>, where \<open>2 ^ e\<close> is the largest power of two not
  above its magnitude, and takes the even multiple when two are equally near. \<open>float\<close>
  has 24 significant bits and \<open>double\<close> has 53. The exponent range is left unbounded:
  no value of lines 48--54 overflows or is subnormal.
\<close>

definition rne :: "real \<Rightarrow> int" where
  "rne x = (let f = \<lfloor>x\<rfloor> in
     if x - of_int f < 1 / 2 then f
     else if 1 / 2 < x - of_int f then f + 1
     else if even f then f else f + 1)"

definition expo :: "real \<Rightarrow> int" where
  "expo x = \<lfloor>log 2 \<bar>x\<bar>\<rfloor>"

definition rnd :: "nat \<Rightarrow> real \<Rightarrow> real" where
  "rnd p x = (if x = 0 then 0
     else of_int (rne (x / 2 powi (expo x - int p + 1))) * 2 powi (expo x - int p + 1))"

definition to_float :: "real \<Rightarrow> real" where
  "to_float = rnd 24"

definition to_double :: "real \<Rightarrow> real" where
  "to_double = rnd 53"

text \<open>
  The C library is not part of the repository. \<open>M_PI\<close> is the \<open>double\<close> nearest to
  \<open>pi\<close>, and \<open>sin\<close> on a \<open>double\<close> is taken to return the \<open>double\<close> nearest to
  the exact sine.
\<close>

definition M_PI :: real where
  "M_PI = to_double pi"

definition libm_sin :: "real \<Rightarrow> real" where
  "libm_sin x = to_double (sin x)"

text \<open>
  Line 48: the 32-bit difference is converted to \<open>double\<close> without error, divided by
  \<open>1000.0\<close> in \<open>double\<close> and stored in the \<open>float\<close> \<open>t\<close>.
\<close>

definition elapsed_f :: "ulong \<Rightarrow> ulong \<Rightarrow> real" where
  "elapsed_f now start = to_float (to_double (real (unat (now - start)) / 1000))"

text \<open>
  Line 51: \<open>2 * M_PI * SPEED * t\<close> is three products in \<open>double\<close>, from the left; the
  sine, the product with \<open>AMPLITUDE\<close> and the sum with \<open>CENTER_POS\<close> are in
  \<open>double\<close> (\<open>position_d\<close>), and the result is stored in the \<open>float\<close>
  \<open>position\<close> (\<open>position_f\<close>). Line 54 sends \<open>(int)position\<close>.
\<close>

definition position_d :: "real \<Rightarrow> real" where
  "position_d t = to_double (CENTER_POS +
     to_double (AMPLITUDE * libm_sin (to_double (to_double (to_double (2 * M_PI) * SPEED) * t))))"

definition position_f :: "real \<Rightarrow> real" where
  "position_f t = to_float (position_d t)"

definition goal_sent :: "real \<Rightarrow> int" where
  "goal_sent t = int_cast (position_f t)"

text \<open>The Maclaurin polynomial of degree 9 of the sine, used to bound it.\<close>

definition sin_poly :: "real \<Rightarrow> real" where
  "sin_poly x = x - x ^ 3 / 6 + x ^ 5 / 120 - x ^ 7 / 5040 + x ^ 9 / 362880"

section \<open>The goal position as a function of time\<close>

lemma position_bounds:
  "1648 \<le> CENTER_POS + AMPLITUDE * sin x" "CENTER_POS + AMPLITUDE * sin x \<le> 2448"
  using sin_ge_minus_one [of x] sin_le_one [of x]
  unfolding CENTER_POS_def AMPLITUDE_def by linarith+

lemma goal_position_floor:
  "goal_position t = \<lfloor>CENTER_POS + AMPLITUDE * sin (2 * pi * SPEED * t)\<rfloor>"
  using position_bounds(1) [of "2 * pi * SPEED * t"]
  by (simp add: goal_position_def int_cast_def)

lemma goal_position_pi: "goal_position t = \<lfloor>2048 + 400 * sin (pi * t)\<rfloor>"
proof -
  have "2 * pi * SPEED * t = pi * t" by (simp add: SPEED_def)
  then show ?thesis by (simp only: goal_position_floor CENTER_POS_def AMPLITUDE_def)
qed

subsection \<open>Bounds on \<open>pi\<close>, \<open>sqrt 2\<close> and a small sine\<close>

lemma pi_ge_3: "3 \<le> pi"
proof -
  have "sin (pi / 6) \<le> pi / 6" by (rule sin_x_le_x) simp
  then show ?thesis by (simp add: sin_30)
qed

lemma sqrt2_bounds: "1413 / 1000 \<le> sqrt 2" "sqrt 2 < 1415 / 1000"
proof -
  show "1413 / 1000 \<le> sqrt 2"
    by (rule real_le_rsqrt) (simp add: power2_eq_square)
  show "sqrt 2 < 1415 / 1000"
    by (rule real_less_lsqrt) (simp_all add: power2_eq_square)
qed

lemma sin_cubic_lower:
  fixes x :: real
  assumes "0 \<le> x"
  shows "x - x ^ 3 / 6 \<le> sin x"
proof -
  have "\<bar>sin x - (\<Sum>m<3. sin_coeff m * x ^ m)\<bar> \<le> inverse (fact 3) * \<bar>x\<bar> ^ 3"
    by (rule Maclaurin_sin_bound)
  moreover have "(\<Sum>m<3. sin_coeff m * x ^ m) = x"
    by (simp add: sin_coeff_def numeral_3_eq_3)
  moreover have "inverse (fact 3) * \<bar>x\<bar> ^ 3 = x ^ 3 / 6"
    using assms by (simp add: fact_numeral)
  ultimately show ?thesis by linarith
qed

lemma sin_milli: "1 \<le> 400 * sin (pi / 1000)" "400 * sin (pi / 1000) < 2"
proof -
  let ?x = "pi / 1000"
  have x: "3 / 1000 \<le> ?x" "?x \<le> 4 / 1000"
    using pi_ge_3 pi_less_4 by simp_all
  have "?x ^ 3 \<le> (4 / 1000) ^ 3"
    using x by (intro power_mono) simp_all
  then have "?x - (4 / 1000) ^ 3 / 6 \<le> ?x - ?x ^ 3 / 6" by simp
  also have "\<dots> \<le> sin ?x" by (rule sin_cubic_lower) simp
  finally have "3 / 1000 - (4 / 1000) ^ 3 / 6 \<le> sin ?x" using x(1) by linarith
  then show "1 \<le> 400 * sin ?x" by (simp add: power3_eq_cube)
  have "sin ?x \<le> ?x" by (rule sin_x_le_x) simp
  then show "400 * sin ?x < 2" using x(2) by linarith
qed

lemma round_quarter: "round (CENTER_POS + AMPLITUDE * sin (2 * pi * SPEED * (1 / 4))) = 2331"
proof -
  have "2 * pi * SPEED * (1 / 4) = pi / 4" by (simp add: SPEED_def)
  then have "round (CENTER_POS + AMPLITUDE * sin (2 * pi * SPEED * (1 / 4)))
      = round (2048 + 200 * sqrt 2)"
    by (simp only: CENTER_POS_def AMPLITUDE_def sin_45) simp
  also have "\<dots> = 2331" using sqrt2_bounds by (simp add: round_def floor_eq_iff)
  finally show ?thesis .
qed

lemma goal_milli: "goal_position (1 / 1000) = 2049"
proof -
  have "goal_position (1 / 1000) = \<lfloor>2048 + 400 * sin (pi / 1000)\<rfloor>"
    by (simp add: goal_position_pi)
  also have "\<dots> = 2049" using sin_milli by (simp add: floor_eq_iff)
  finally show ?thesis .
qed

section \<open>What one call of \<open>loop\<close> and a whole run do\<close>

lemma loop_t_trace [simp]: "loop_t up (s\<lparr>trace := tr\<rparr>) = loop_t up s"
  by (simp add: loop_t_def init_startTime_def elapsed_def)

lemma loop_fields:
  "pc (loop up s) = pc s"
  "startTime_set (loop up s) = True"
  "startTime (loop up s) = (if startTime_set s then startTime s else millis up (reads s))"
  "reads (loop up s) = (if startTime_set s then Suc (reads s) else Suc (Suc (reads s)))"
  "trace (loop up s) = trace s @
     [SetGoalPosition MOTOR_ID (goal_position (loop_t up s)), SerialPrint ''Goal: '',
      SerialPrintlnInt (goal_position (loop_t up s)), Delay 20]"
  by (simp_all add: loop_def loop_t_def init_startTime_def Let_def goal_position_def elapsed_def)

lemma run_False: "run False up (Suc n) = setup_fn False boot"
  by (induction n) (simp_all add: step_def boot_def setup_fn_def)

lemma run_True_1: "run True up (Suc 0) = setup_fn True boot"
  by (simp add: step_def boot_def)

lemma run_True_pc: "pc (run True up (Suc n)) = At_loop"
  by (induction n) (simp_all add: step_def boot_def setup_fn_def loop_fields)

lemma run_True_step: "run True up (Suc (Suc n)) = loop up (run True up (Suc n))"
  using run_True_pc [of up n] by (simp add: step_def)

lemma run_True_static:
  "startTime_set (run True up (Suc (Suc n))) \<and>
   startTime (run True up (Suc (Suc n))) = millis up 0 \<and>
   reads (run True up (Suc (Suc n))) = Suc (Suc n)"
proof (induction n)
  case 0
  show ?case
    by (simp only: run_True_step loop_fields run_True_1)
       (simp add: setup_fn_def boot_def)
next
  case (Suc n)
  then show ?case
    by (simp only: run_True_step [of up "Suc n"] loop_fields) simp
qed

lemma iter_t_eq: "iter_t up k = elapsed (millis up (Suc k)) (millis up 0)"
proof (cases k)
  case 0
  then show ?thesis
    by (simp add: iter_t_def loop_t_def init_startTime_def setup_fn_def step_def boot_def)
next
  case (Suc n)
  then show ?thesis
    using run_True_static [of up n]
    by (simp add: iter_t_def loop_t_def init_startTime_def)
qed

lemma run_True_trace:
  "trace (run True up (Suc n)) = trace (setup_fn True boot) @
     concat (map (\<lambda>k. [SetGoalPosition MOTOR_ID (goal_position (iter_t up k)),
                        SerialPrint ''Goal: '',
                        SerialPrintlnInt (goal_position (iter_t up k)),
                        Delay 20]) [0..<n])"
proof (induction n)
  case 0
  show ?case by (simp add: step_def boot_def)
next
  case (Suc n)
  show ?case
    by (simp only: run_True_step loop_fields Suc.IH) (simp add: iter_t_def)
qed

lemma elapsed_of_nat:
  assumes "b \<le> a" "a - b < 2 ^ 32"
  shows "elapsed (word_of_nat a) (word_of_nat b) = real (a - b) / 1000"
proof -
  have "(word_of_nat a - word_of_nat b :: 32 word) = word_of_nat (a - b)"
    using assms(1) by simp
  moreover have "unat (word_of_nat (a - b) :: 32 word) = a - b"
    using assms(2) by (simp add: unat_of_nat)
  ultimately show ?thesis by (simp add: elapsed_def)
qed

lemma goals_written_append: "goals_written (xs @ ys) = goals_written xs @ goals_written ys"
  by (induction xs rule: goals_written.induct) simp_all

lemma ints_printed_append: "ints_printed (xs @ ys) = ints_printed xs @ ints_printed ys"
  by (induction xs rule: ints_printed.induct) simp_all

lemma writes_of_append: "writes_of i (xs @ ys) = writes_of i xs @ writes_of i ys"
  by (induction i xs rule: writes_of.induct) simp_all

lemma run_True_fresh: "startTime_set (run True up (Suc 0)) = False"
  by (simp add: step_def boot_def setup_fn_def)

section \<open>Rounding, and the error of lines 48--54\<close>

subsection \<open>Rounding to nearest\<close>

lemma rne_err: "\<bar>of_int (rne x) - x\<bar> \<le> 1 / 2"
  unfolding rne_def Let_def by (auto simp: abs_if) linarith+

lemma rne_ge: "of_int n - 1 / 2 < x \<Longrightarrow> n \<le> rne x"
  using rne_err [of x] by linarith

lemma rne_le: "x < of_int n + 1 / 2 \<Longrightarrow> rne x \<le> n"
  using rne_err [of x] by linarith

lemma rne_eq: "\<bar>x - of_int n\<bar> < 1 / 2 \<Longrightarrow> rne x = n"
  using rne_err [of x] by linarith

lemma two_powr_int: "(2::real) powr of_int k = 2 powi k"
  by (rule powr_real_of_int') simp_all

lemma expo_eq:
  assumes "2 powi k \<le> \<bar>x\<bar>" "\<bar>x\<bar> < 2 powi (k + 1)"
  shows "expo x = k"
proof -
  have "(0::real) < 2 powi k" by simp
  with assms(1) have pos: "0 < \<bar>x\<bar>" by linarith
  have "of_int k \<le> log 2 \<bar>x\<bar>"
    using assms(1) pos by (simp add: le_log_iff two_powr_int)
  moreover have "log 2 \<bar>x\<bar> < of_int (k + 1)"
    using assms(2) pos by (simp add: log_less_iff two_powr_int del: of_int_add)
  ultimately show ?thesis unfolding expo_def by (simp add: floor_eq_iff)
qed

lemma expo_bounds:
  assumes "x \<noteq> 0"
  shows "2 powi (expo x) \<le> \<bar>x\<bar>" "\<bar>x\<bar> < 2 powi (expo x + 1)"
proof -
  have pos: "0 < \<bar>x\<bar>" using assms by simp
  have "of_int (expo x) \<le> log 2 \<bar>x\<bar>" unfolding expo_def by simp
  then show "2 powi (expo x) \<le> \<bar>x\<bar>"
    using pos by (simp add: le_log_iff two_powr_int)
  have "log 2 \<bar>x\<bar> < of_int (expo x + 1)" unfolding expo_def by simp
  then show "\<bar>x\<bar> < 2 powi (expo x + 1)"
    using pos by (simp add: log_less_iff two_powr_int del: of_int_add)
qed

lemma rnd_binade:
  assumes "2 powi k \<le> \<bar>x\<bar>" "\<bar>x\<bar> < 2 powi (k + 1)"
  shows "rnd p x = of_int (rne (x / 2 powi (k - int p + 1))) * 2 powi (k - int p + 1)"
proof -
  have "(0::real) < 2 powi k" by simp
  with assms(1) have "0 < \<bar>x\<bar>" by linarith
  then have "x \<noteq> 0" by simp
  then show ?thesis by (simp add: rnd_def expo_eq [OF assms])
qed

lemma rnd_err:
  assumes "\<bar>x\<bar> < 2 powi k"
  shows "\<bar>rnd p x - x\<bar> \<le> 2 powi (k - int p - 1)"
proof (cases "x = 0")
  case True
  then show ?thesis by (simp add: rnd_def)
next
  case False
  let ?e = "expo x - int p + 1"
  let ?u = "(2::real) powi ?e"
  have u: "0 < ?u" by simp
  have "2 powi (expo x) \<le> \<bar>x\<bar>" using expo_bounds(1) [OF False] .
  with assms have "(2::real) powi (expo x) < 2 powi k" by linarith
  then have "expo x < k"
    using power_int_increasing [of k "expo x" "2::real"] by (cases "expo x < k") auto
  then have "?e \<le> k - int p" by simp
  then have ule: "?u \<le> 2 powi (k - int p)"
    by (intro power_int_increasing) simp_all
  have "rnd p x - x = (of_int (rne (x / ?u)) - x / ?u) * ?u"
    using False u by (simp add: rnd_def field_simps)
  then have "\<bar>rnd p x - x\<bar> = \<bar>of_int (rne (x / ?u)) - x / ?u\<bar> * ?u"
    using u by (simp add: abs_mult)
  also have "\<dots> \<le> 1 / 2 * ?u"
    using rne_err [of "x / ?u"] u by (intro mult_right_mono) simp_all
  also have "\<dots> \<le> 1 / 2 * 2 powi (k - int p)" using ule by simp
  also have "\<dots> = 2 powi (k - int p - 1)"
    by (simp add: power_int_diff)
  finally show ?thesis .
qed

lemma to_double_err:
  assumes "h = 1 / 2 ^ 54" "\<bar>x\<bar> < b" "b = 2 powi k"
  shows "\<bar>to_double x - x\<bar> \<le> b * h"
proof -
  have "\<bar>to_double x - x\<bar> \<le> 2 powi (k - 54)"
    using rnd_err [of x k 53] assms by (simp add: to_double_def)
  also have "\<dots> = b * h" using assms by (simp add: power_int_diff)
  finally show ?thesis .
qed

lemma to_float_err:
  assumes "g = 1 / 2 ^ 25" "\<bar>x\<bar> < b" "b = 2 powi k"
  shows "\<bar>to_float x - x\<bar> \<le> b * g"
proof -
  have "\<bar>to_float x - x\<bar> \<le> 2 powi (k - 25)"
    using rnd_err [of x k 24] assms by (simp add: to_float_def)
  also have "\<dots> = b * g" using assms by (simp add: power_int_diff)
  finally show ?thesis .
qed

subsection \<open>Bounds on the sine and on \<open>pi\<close>\<close>

lemma sin_lipschitz: "\<bar>sin a - sin b\<bar> \<le> \<bar>a - b\<bar>" for a b :: real
proof -
  have "sin a - sin b = 2 * sin ((a - b) / 2) * cos ((a + b) / 2)"
    by (simp add: sin_diff_sin)
  then have "\<bar>sin a - sin b\<bar> = 2 * \<bar>sin ((a - b) / 2)\<bar> * \<bar>cos ((a + b) / 2)\<bar>"
    by (simp add: abs_mult)
  also have "\<dots> \<le> 2 * \<bar>(a - b) / 2\<bar> * 1"
    by (intro mult_mono mult_left_mono abs_sin_x_le_abs_x) (simp_all add: abs_cos_le_one)
  finally show ?thesis by simp
qed

lemma sin_poly_err:
  fixes x :: real
  assumes "0 \<le> x"
  shows "\<bar>sin x - sin_poly x\<bar> \<le> x ^ 11 / 39916800"
proof -
  have "\<bar>sin x - (\<Sum>m<11. sin_coeff m * x ^ m)\<bar> \<le> inverse (fact 11) * \<bar>x\<bar> ^ 11"
    by (rule Maclaurin_sin_bound)
  moreover have "(\<Sum>m<11. sin_coeff m * x ^ m) = sin_poly x"
    by (simp add: sin_coeff_def sin_poly_def lessThan_nat_numeral lessThan_Suc fact_numeral)
  moreover have "inverse (fact 11) * \<bar>x\<bar> ^ 11 = x ^ 11 / 39916800"
    using assms by (simp add: fact_numeral)
  ultimately show ?thesis by simp
qed

lemma sin_mono_quadrant:
  fixes x y :: real
  assumes "0 \<le> x" "x \<le> y" "y \<le> 3 / 2"
  shows "sin x \<le> sin y"
proof -
  have "3 / 2 \<le> pi / 2" using pi_ge_3 by simp
  with assms show ?thesis by (intro sin_monotone_2pi_le) linarith+
qed

lemma pi_bounds: "314159262 / 100000000 \<le> pi" "pi \<le> 314159268 / 100000000"
proof -
  let ?a = "52359877 / 100000000 :: real"
  let ?b = "52359878 / 100000000 :: real"
  have y: "0 \<le> pi / 6" "pi / 6 \<le> 3 / 2" using pi_less_4 by simp_all
  have "sin ?a \<le> sin_poly ?a + ?a ^ 11 / 39916800"
    using sin_poly_err [of ?a] by linarith
  also have "\<dots> < 1 / 2" by (simp add: sin_poly_def power_divide)
  finally have a: "sin ?a < 1 / 2" .
  have "\<not> pi / 6 \<le> ?a"
  proof
    assume "pi / 6 \<le> ?a"
    then have "sin (pi / 6) \<le> sin ?a" using y by (intro sin_mono_quadrant) simp_all
    with a show False by (simp add: sin_30)
  qed
  then show "314159262 / 100000000 \<le> pi" by simp
  have "1 / 2 < sin_poly ?b - ?b ^ 11 / 39916800" by (simp add: sin_poly_def power_divide)
  also have "\<dots> \<le> sin ?b" using sin_poly_err [of ?b] by linarith
  finally have b: "1 / 2 < sin ?b" .
  have "\<not> ?b \<le> pi / 6"
  proof
    assume "?b \<le> pi / 6"
    then have "sin ?b \<le> sin (pi / 6)" using y by (intro sin_mono_quadrant) simp_all
    with b show False by (simp add: sin_30)
  qed
  then show "pi \<le> 314159268 / 100000000" by simp
qed

subsection \<open>The error of \<open>position\<close> and of \<open>t\<close>\<close>

text \<open>
  Every operation of line 51 is followed through with the bound of \<open>rnd_err\<close>, in
  units of \<open>h = 2 ^ -54\<close>, for any \<open>t\<close> below \<open>2 ^ 23\<close>; the elapsed time of a
  32-bit tick difference is below that.
\<close>

lemma position_d_err:
  assumes "0 \<le> t" "t < 2 ^ 23"
  shows "\<bar>position_d t - (CENTER_POS + AMPLITUDE * sin (2 * pi * SPEED * t))\<bar> \<le> 1 / 2 ^ 16"
proof -
  define h :: real where "h = 1 / 2 ^ 54"
  have h0: "0 \<le> h" "h \<le> 1 / 1000000000000000" by (simp_all add: h_def)
  note rd = to_double_err [OF h_def]
  let ?a = "to_double (2 * M_PI)"
  let ?b = "to_double (?a * SPEED)"
  let ?c = "to_double (?b * t)"
  let ?s = "libm_sin ?c"
  let ?m = "to_double (AMPLITUDE * ?s)"
  have P: "3 \<le> pi" "pi \<le> 16 / 5" using pi_ge_3 pi_bounds(2) by simp_all
  have "\<bar>pi\<bar> < 4" using P by linarith
  then have p: "\<bar>M_PI - pi\<bar> \<le> 4 * h" unfolding M_PI_def by (rule rd [where k = 2]) simp
  have "\<bar>2 * M_PI\<bar> < 16" using p P h0 by linarith
  then have "\<bar>?a - 2 * M_PI\<bar> \<le> 16 * h" by (rule rd [where k = 4]) simp
  with p have a: "\<bar>?a - 2 * pi\<bar> \<le> 24 * h" by linarith
  have as: "?a * SPEED = ?a / 2" by (simp add: SPEED_def)
  have "\<bar>?a * SPEED\<bar> < 8" using a P h0 unfolding as by linarith
  then have "\<bar>?b - ?a * SPEED\<bar> \<le> 8 * h" by (rule rd [where k = 3]) simp
  with a have b: "\<bar>?b - pi\<bar> \<le> 20 * h" unfolding as by linarith
  have "\<bar>?b * t - pi * t\<bar> = \<bar>?b - pi\<bar> * t"
    using assms(1) by (simp add: abs_mult flip: left_diff_distrib)
  also have "\<dots> \<le> (20 * h) * 2 ^ 23"
    using b assms by (intro mult_mono) simp_all
  finally have bt: "\<bar>?b * t - pi * t\<bar> \<le> 167772160 * h" by simp
  have "pi * t \<le> 16 / 5 * 2 ^ 23"
    using assms P by (intro mult_mono) simp_all
  then have pt: "pi * t < 33554432 - 1" "0 \<le> pi * t" using assms by simp_all
  have "\<bar>?b * t\<bar> < 33554432" using bt pt h0 by linarith
  then have "\<bar>?c - ?b * t\<bar> \<le> 33554432 * h" by (rule rd [where k = 25]) simp
  with bt have c: "\<bar>?c - pi * t\<bar> \<le> 201326592 * h" by linarith
  have "\<bar>sin ?c\<bar> < 2" using abs_sin_le_one [of ?c] by linarith
  then have "\<bar>?s - sin ?c\<bar> \<le> 2 * h" unfolding libm_sin_def by (rule rd [where k = 1]) simp
  moreover have "\<bar>sin ?c - sin (pi * t)\<bar> \<le> \<bar>?c - pi * t\<bar>" by (rule sin_lipschitz)
  ultimately have s: "\<bar>?s - sin (pi * t)\<bar> \<le> 201326594 * h" using c by linarith
  have am: "AMPLITUDE * ?s = 400 * ?s" by (simp add: AMPLITUDE_def)
  have "\<bar>400 * ?s\<bar> < 512" using s abs_sin_le_one [of "pi * t"] h0 by linarith
  then have "\<bar>?m - 400 * ?s\<bar> \<le> 512 * h" unfolding am by (rule rd [where k = 9]) simp
  with s have m: "\<bar>?m - 400 * sin (pi * t)\<bar> \<le> 80530638112 * h" by linarith
  have "\<bar>2048 + ?m\<bar> < 4096" using m abs_sin_le_one [of "pi * t"] h0 by linarith
  then have "\<bar>to_double (2048 + ?m) - (2048 + ?m)\<bar> \<le> 4096 * h" by (rule rd [where k = 12]) simp
  with m have "\<bar>to_double (2048 + ?m) - (2048 + 400 * sin (pi * t))\<bar> \<le> 274877906944 * h"
    using h0 by linarith
  moreover have "274877906944 * h = 1 / 2 ^ 16" by (simp add: h_def)
  ultimately have "\<bar>to_double (2048 + ?m) - (2048 + 400 * sin (pi * t))\<bar> \<le> 1 / 2 ^ 16"
    by (simp only:)
  moreover have "2 * pi * SPEED * t = pi * t" by (simp add: SPEED_def)
  ultimately show ?thesis
    unfolding position_d_def CENTER_POS_def AMPLITUDE_def by (simp only:)
qed

lemma position_f_err:
  assumes "0 \<le> t" "t < 2 ^ 23"
  shows "\<bar>position_f t - (CENTER_POS + AMPLITUDE * sin (2 * pi * SPEED * t))\<bar> \<le> 1 / 2 ^ 12"
proof -
  let ?E = "CENTER_POS + AMPLITUDE * sin (2 * pi * SPEED * t)"
  define g :: real where "g = 1 / 2 ^ 25"
  have d: "\<bar>position_d t - ?E\<bar> \<le> 1 / 65536" using position_d_err [OF assms] by simp
  have "1648 \<le> ?E" "?E \<le> 2448" by (rule position_bounds)+
  with d have "\<bar>position_d t\<bar> < 4096" by linarith
  then have "\<bar>position_f t - position_d t\<bar> \<le> 4096 * g"
    unfolding position_f_def by (rule to_float_err [OF g_def, where k = 12]) simp
  then have "\<bar>position_f t - position_d t\<bar> \<le> 1 / 8192" by (simp add: g_def)
  with d have "\<bar>position_f t - ?E\<bar> \<le> 1 / 4096" by linarith
  then show ?thesis by simp
qed

lemma rnd_rel_err: "\<bar>rnd p x - x\<bar> \<le> \<bar>x\<bar> / 2 ^ p"
proof (cases "x = 0")
  case True
  then show ?thesis by (simp add: rnd_def)
next
  case False
  let ?e = "expo x - int p + 1"
  let ?u = "(2::real) powi ?e"
  have u: "0 < ?u" by simp
  have "rnd p x - x = (of_int (rne (x / ?u)) - x / ?u) * ?u"
    using False u by (simp add: rnd_def field_simps)
  then have "\<bar>rnd p x - x\<bar> = \<bar>of_int (rne (x / ?u)) - x / ?u\<bar> * ?u"
    using u by (simp add: abs_mult)
  also have "\<dots> \<le> 1 / 2 * ?u"
    using rne_err [of "x / ?u"] u by (intro mult_right_mono) simp_all
  also have "\<dots> = 2 powi (expo x) / 2 ^ p"
    by (simp add: power_int_diff power_int_add)
  also have "\<dots> \<le> \<bar>x\<bar> / 2 ^ p"
    using expo_bounds(1) [OF False] by (intro divide_right_mono) simp_all
  finally show ?thesis .
qed

lemma rnd_nonneg: "0 \<le> x \<Longrightarrow> 0 \<le> rnd p x"
proof -
  assume x: "0 \<le> x"
  have "x * 1 \<le> x * 2 ^ p" using x by (intro mult_left_mono) simp_all
  then have "x / 2 ^ p \<le> x" by (simp add: field_simps)
  moreover have "\<bar>rnd p x - x\<bar> \<le> x / 2 ^ p" using rnd_rel_err [of p x] x by simp
  ultimately show ?thesis by linarith
qed

lemma elapsed_f_bounds:
  "0 \<le> elapsed_f now start" "elapsed_f now start < 2 ^ 23"
  "\<bar>elapsed_f now start - real (unat (now - start)) / 1000\<bar>
     \<le> real (unat (now - start)) / 1000 / 2 ^ 23"
proof -
  define n where "n = unat (now - start)"
  let ?x = "real n / 1000"
  let ?v = "to_double ?x"
  have e: "elapsed_f now start = to_float ?v" by (simp only: elapsed_f_def n_def)
  have "n < 2 ^ 32" unfolding n_def using unsigned_less [of "now - start"] by simp
  then have "real n < real (2 ^ 32)" by (simp only: of_nat_less_iff)
  then have x: "0 \<le> ?x" "?x < 4294968" by simp_all
  have v0: "0 \<le> ?v" unfolding to_double_def by (rule rnd_nonneg) (rule x)
  have "\<bar>?v - ?x\<bar> \<le> \<bar>?x\<bar> / 2 ^ 53" unfolding to_double_def by (rule rnd_rel_err)
  then have v: "\<bar>?v - ?x\<bar> \<le> ?x / 9007199254740992" using x(1) by simp
  have "\<bar>to_float ?v - ?v\<bar> \<le> \<bar>?v\<bar> / 2 ^ 24" unfolding to_float_def by (rule rnd_rel_err)
  then have f: "\<bar>to_float ?v - ?v\<bar> \<le> ?v / 16777216" using v0 by simp
  show "0 \<le> elapsed_f now start"
    unfolding e to_float_def by (rule rnd_nonneg) (rule v0)
  from v f x have "to_float ?v < 8388608" by linarith
  then show "elapsed_f now start < 2 ^ 23" unfolding e by simp
  from v f x have "\<bar>to_float ?v - ?x\<bar> \<le> ?x / 8388608" by linarith
  then have "\<bar>elapsed_f now start - ?x\<bar> \<le> ?x / 2 ^ 23" unfolding e by simp
  then show "\<bar>elapsed_f now start - real (unat (now - start)) / 1000\<bar>
     \<le> real (unat (now - start)) / 1000 / 2 ^ 23" by (simp only: n_def)
qed

lemma position_f_pos:
  assumes "0 \<le> t" "t < 2 ^ 23"
  shows "1647 \<le> position_f t" "position_f t \<le> 2449"
proof -
  let ?E = "CENTER_POS + AMPLITUDE * sin (2 * pi * SPEED * t)"
  have "\<bar>position_f t - ?E\<bar> \<le> 1 / 4096" using position_f_err [OF assms] by simp
  moreover have "1648 \<le> ?E" "?E \<le> 2448" by (rule position_bounds)+
  ultimately show "1647 \<le> position_f t" "position_f t \<le> 2449" by linarith+
qed

lemma expr_lipschitz:
  "\<bar>(CENTER_POS + AMPLITUDE * sin (2 * pi * SPEED * a)) -
    (CENTER_POS + AMPLITUDE * sin (2 * pi * SPEED * b))\<bar> \<le> 1280 * \<bar>a - b\<bar>"
proof -
  have "\<bar>sin (pi * a) - sin (pi * b)\<bar> \<le> \<bar>pi * a - pi * b\<bar>" by (rule sin_lipschitz)
  also have "\<dots> = pi * \<bar>a - b\<bar>" by (simp add: abs_mult flip: right_diff_distrib)
  also have "\<dots> \<le> 16 / 5 * \<bar>a - b\<bar>"
    using pi_bounds(2) by (intro mult_right_mono) simp_all
  finally have "\<bar>sin (pi * a) - sin (pi * b)\<bar> \<le> 16 / 5 * \<bar>a - b\<bar>" .
  moreover have "2 * pi * SPEED * a = pi * a" "2 * pi * SPEED * b = pi * b"
    by (simp_all add: SPEED_def)
  ultimately show ?thesis
    unfolding CENTER_POS_def AMPLITUDE_def by (simp only:)
qed

subsection \<open>A quarter of a second after the start\<close>

lemma sqrt2_tight: "1414 / 1000 \<le> sqrt 2" "sqrt 2 < 14143 / 10000"
proof -
  show "1414 / 1000 \<le> sqrt 2"
    by (rule real_le_rsqrt) (simp add: power2_eq_square)
  show "sqrt 2 < 14143 / 10000"
    by (rule real_less_lsqrt) (simp_all add: power2_eq_square)
qed

lemma expr_quarter: "CENTER_POS + AMPLITUDE * sin (2 * pi * SPEED * (1 / 4)) = 2048 + 200 * sqrt 2"
proof -
  have "2 * pi * SPEED * (1 / 4) = pi / 4" by (simp add: SPEED_def)
  then show ?thesis by (simp only: CENTER_POS_def AMPLITUDE_def sin_45)
qed

lemma goal_sent_250: "goal_sent (elapsed_f 250 0) = 2330"
proof -
  define t where "t = elapsed_f 250 0"
  define E where "E = CENTER_POS + AMPLITUDE * sin (2 * pi * SPEED * t)"
  note b = elapsed_f_bounds [of 250 0, folded t_def]
  have "real (unat (250 - 0 :: ulong)) / 1000 = 1 / 4" by simp
  with b(3) have "\<bar>t - 1 / 4\<bar> \<le> 1 / 4 / 2 ^ 23" by (simp only:)
  then have t: "\<bar>t - 1 / 4\<bar> \<le> 1 / 33554432" by simp
  have "\<bar>E - (2048 + 200 * sqrt 2)\<bar> \<le> 1280 * \<bar>t - 1 / 4\<bar>"
    unfolding E_def expr_quarter [symmetric] by (rule expr_lipschitz)
  with t have e: "\<bar>E - (2048 + 200 * sqrt 2)\<bar> \<le> 1 / 1000" by argo
  have "\<bar>position_f t - E\<bar> \<le> 1 / 2 ^ 12"
    unfolding E_def by (rule position_f_err [OF b(1) b(2)])
  then have "\<bar>position_f t - E\<bar> \<le> 1 / 4096" by simp
  with e sqrt2_tight have p: "2330 \<le> position_f t" "position_f t < 2331" by linarith+
  then have "\<lfloor>position_f t\<rfloor> = 2330" by (simp add: floor_eq_iff)
  moreover have "0 \<le> position_f t" using p(1) by linarith
  ultimately show ?thesis by (simp add: goal_sent_def int_cast_def t_def)
qed

subsection \<open>3219 and 5219 milliseconds after the start\<close>

text \<open>
  Here the \<open>float\<close> \<open>t\<close> is computed exactly, the sine is enclosed by its
  Maclaurin polynomial at decimal bounds of the argument, and the last rounding, of
  \<open>position\<close> to \<open>float\<close> between \<open>1024\<close> and \<open>2048\<close>, is to the nearest
  multiple of \<open>1 / 8192\<close>.
\<close>

lemma to_float_binade:
  assumes "lo \<le> x" "x < 2 * lo" "lo = 2 ^ k" "s = 2 ^ 23 / lo"
  shows "to_float x = of_int (rne (x * s)) / s"
proof -
  have a: "2 powi (int k) \<le> \<bar>x\<bar>" "\<bar>x\<bar> < 2 powi (int k + 1)"
    using assms(1,2,3) by (simp_all add: power_int_add)
  have "(2::real) powi (int k - int 24 + 1) = 1 / s"
    using assms(3,4) by (simp add: power_int_diff power_int_add)
  with rnd_binade [OF a, of 24] show ?thesis by (simp add: to_float_def)
qed

lemma to_double_near:
  assumes "0 \<le> x" "x < 8"
  shows "\<bar>to_double x - x\<bar> \<le> 1 / 2 ^ 51"
proof -
  have "\<bar>x\<bar> < 8" using assms by simp
  then have "\<bar>to_double x - x\<bar> \<le> 8 * (1 / 2 ^ 54)"
    by (rule to_double_err [OF refl, where k = 3]) simp
  then show ?thesis by simp
qed

lemma elapsed_f_3219: "elapsed_f 3219 0 = 13501465 / 4194304"
proof -
  let ?v = "to_double (3219 / 1000)"
  have "\<bar>?v - 3219 / 1000\<bar> \<le> 1 / 2 ^ 51" by (rule to_double_near) simp_all
  then have v: "\<bar>?v - 3219 / 1000\<bar> \<le> 1 / 1000000000000" by simp
  then have "2 \<le> ?v" "?v < 2 * 2" by linarith+
  then have "to_float ?v = of_int (rne (?v * 4194304)) / 4194304"
    by (rule to_float_binade [where k = 1]) simp_all
  moreover have "\<bar>?v * 4194304 - 13501465\<bar> < 1 / 2" using v by linarith
  then have "rne (?v * 4194304) = 13501465" using rne_eq [of "?v * 4194304" 13501465] by simp
  moreover have "real (unat (3219 - 0 :: ulong)) / 1000 = 3219 / 1000" by simp
  ultimately show ?thesis by (simp add: elapsed_f_def)
qed

lemma elapsed_f_5219: "elapsed_f 5219 0 = 2736259 / 524288"
proof -
  let ?v = "to_double (5219 / 1000)"
  have "\<bar>?v - 5219 / 1000\<bar> \<le> 1 / 2 ^ 51" by (rule to_double_near) simp_all
  then have v: "\<bar>?v - 5219 / 1000\<bar> \<le> 1 / 1000000000000" by simp
  then have "4 \<le> ?v" "?v < 2 * 4" by linarith+
  then have "to_float ?v = of_int (rne (?v * 2097152)) / 2097152"
    by (rule to_float_binade [where k = 2]) simp_all
  moreover have "\<bar>?v * 2097152 - 10945036\<bar> < 1 / 2" using v by linarith
  then have "rne (?v * 2097152) = 10945036" using rne_eq [of "?v * 2097152" 10945036] by simp
  moreover have "real (unat (5219 - 0 :: ulong)) / 1000 = 5219 / 1000" by simp
  ultimately show ?thesis by (simp add: elapsed_f_def)
qed

lemma sin_odd_shift:
  "sin (pi * (q + 3)) = - sin (pi * q)" "sin (pi * (q + 5)) = - sin (pi * q)"
proof -
  have "pi * (q + 3) = (pi * q + pi) + 2 * pi" by (simp add: algebra_simps)
  then show "sin (pi * (q + 3)) = - sin (pi * q)" by (simp only: sin_periodic sin_periodic_pi)
  have "pi * (q + 5) = ((pi * q + pi) + 2 * pi) + 2 * pi" by (simp add: algebra_simps)
  then show "sin (pi * (q + 5)) = - sin (pi * q)" by (simp only: sin_periodic sin_periodic_pi)
qed

lemma sin_lower_at:
  assumes "0 \<le> a" "a \<le> x" "x \<le> 3 / 2"
  shows "sin_poly a - a ^ 11 / 39916800 \<le> sin x"
proof -
  have "sin_poly a - a ^ 11 / 39916800 \<le> sin a" using sin_poly_err [OF assms(1)] by linarith
  also have "\<dots> \<le> sin x" using assms by (rule sin_mono_quadrant)
  finally show ?thesis .
qed

lemma sin_upper_at:
  assumes "0 \<le> x" "x \<le> b" "b \<le> 3 / 2"
  shows "sin x \<le> sin_poly b + b ^ 11 / 39916800"
proof -
  have "0 \<le> b" using assms by linarith
  have "sin x \<le> sin b" using assms by (rule sin_mono_quadrant)
  also have "\<dots> \<le> sin_poly b + b ^ 11 / 39916800" using sin_poly_err [OF \<open>0 \<le> b\<close>] by linarith
  finally show ?thesis .
qed

lemma expr_3219:
  defines "E \<equiv> CENTER_POS + AMPLITUDE * sin (2 * pi * SPEED * (13501465 / 4194304))"
  shows "17939 / 10 \<le> E" "E < 1794 - 1 / 10000"
proof -
  let ?q = "918553 / 4194304 :: real"
  have "2 * pi * SPEED * (13501465 / 4194304) = pi * (?q + 3)" by (simp add: SPEED_def)
  then have E: "E = 2048 - 400 * sin (pi * ?q)"
    by (simp only: E_def CENTER_POS_def AMPLITUDE_def sin_odd_shift)
  have lo: "688009101 / 1000000000 \<le> pi * ?q" using pi_bounds(1) by simp
  have hi: "pi * ?q \<le> 6881 / 10000" using pi_bounds(2) by simp
  have "6350004 / 10000000 < sin_poly (688009101 / 1000000000) - (688009101 / 1000000000) ^ 11 / 39916800"
    by (simp add: sin_poly_def power_divide)
  also have "\<dots> \<le> sin (pi * ?q)" using lo hi by (intro sin_lower_at) simp_all
  finally have "6350004 / 10000000 < sin (pi * ?q)" .
  then show "E < 1794 - 1 / 10000" unfolding E by linarith
  have "sin (pi * ?q) \<le> sin_poly (6881 / 10000) + (6881 / 10000) ^ 11 / 39916800"
    using lo hi by (intro sin_upper_at) simp_all
  also have "\<dots> < 6351 / 10000" by (simp add: sin_poly_def power_divide)
  finally show "17939 / 10 \<le> E" unfolding E by linarith
qed

lemma expr_5219:
  defines "E \<equiv> CENTER_POS + AMPLITUDE * sin (2 * pi * SPEED * (2736259 / 524288))"
  shows "1794 - 1 / 100000 < E" "E \<le> 17941 / 10"
proof -
  let ?q = "114819 / 524288 :: real"
  have "2 * pi * SPEED * (2736259 / 524288) = pi * (?q + 5)" by (simp add: SPEED_def)
  then have E: "E = 2048 - 400 * sin (pi * ?q)"
    by (simp only: E_def CENTER_POS_def AMPLITUDE_def sin_odd_shift)
  have lo: "688 / 1000 \<le> pi * ?q" using pi_bounds(1) by simp
  have hi: "pi * ?q \<le> 688008366 / 1000000000" using pi_bounds(2) by simp
  have "sin (pi * ?q) \<le> sin_poly (688008366 / 1000000000) + (688008366 / 1000000000) ^ 11 / 39916800"
    using lo hi by (intro sin_upper_at) simp_all
  also have "\<dots> < 6349999 / 10000000" by (simp add: sin_poly_def power_divide)
  finally show "1794 - 1 / 100000 < E" unfolding E by linarith
  have "6349 / 10000 < sin_poly (688 / 1000) - (688 / 1000) ^ 11 / 39916800"
    by (simp add: sin_poly_def power_divide)
  also have "\<dots> \<le> sin (pi * ?q)" using lo hi by (intro sin_lower_at) simp_all
  finally show "E \<le> 17941 / 10" unfolding E by linarith
qed

lemma goal_sent_3219: "goal_sent (elapsed_f 3219 0) = 1793"
proof -
  define t :: real where "t = 13501465 / 4194304"
  define x where "x = position_d t"
  have t: "0 \<le> t" "t < 2 ^ 23" by (simp_all add: t_def)
  have "\<bar>x - (CENTER_POS + AMPLITUDE * sin (2 * pi * SPEED * t))\<bar> \<le> 1 / 2 ^ 16"
    unfolding x_def by (rule position_d_err [OF t])
  then have "\<bar>x - (CENTER_POS + AMPLITUDE * sin (2 * pi * SPEED * t))\<bar> \<le> 1 / 65536" by simp
  with expr_3219 [folded t_def] have x: "1793 + 1 / 2 \<le> x" "x < 1794 - 1 / 16384" by linarith+
  then have "1024 \<le> x" "x < 2 * 1024" by linarith+
  then have f: "to_float x = of_int (rne (x * 8192)) / 8192"
    by (rule to_float_binade [where k = 10]) simp_all
  have "x * 8192 < 14696447 + 1 / 2" "14692352 - 1 / 2 < x * 8192" using x by linarith+
  then have "rne (x * 8192) \<le> 14696447" "14692352 \<le> rne (x * 8192)"
    using rne_le [of "x * 8192" 14696447] rne_ge [of 14692352 "x * 8192"] by simp_all
  then have "real_of_int (rne (x * 8192)) \<le> 14696447" "14692352 \<le> real_of_int (rne (x * 8192))"
    by linarith+
  then have p: "1793 \<le> position_f t" "position_f t < 1794"
    unfolding position_f_def x_def [symmetric] f by simp_all
  then have "\<lfloor>position_f t\<rfloor> = 1793" by (simp add: floor_eq_iff)
  moreover have "0 \<le> position_f t" using p(1) by linarith
  ultimately show ?thesis by (simp add: goal_sent_def int_cast_def elapsed_f_3219 t_def)
qed

lemma goal_sent_5219: "goal_sent (elapsed_f 5219 0) = 1794"
proof -
  define t :: real where "t = 2736259 / 524288"
  define x where "x = position_d t"
  have t: "0 \<le> t" "t < 2 ^ 23" by (simp_all add: t_def)
  have "\<bar>x - (CENTER_POS + AMPLITUDE * sin (2 * pi * SPEED * t))\<bar> \<le> 1 / 2 ^ 16"
    unfolding x_def by (rule position_d_err [OF t])
  then have "\<bar>x - (CENTER_POS + AMPLITUDE * sin (2 * pi * SPEED * t))\<bar> \<le> 1 / 65536" by simp
  with expr_5219 [folded t_def] have x: "1794 - 1 / 16384 < x" "x < 1794 + 1 / 2" by linarith+
  then have "1024 \<le> x" "x < 2 * 1024" by linarith+
  then have f: "to_float x = of_int (rne (x * 8192)) / 8192"
    by (rule to_float_binade [where k = 10]) simp_all
  have "x * 8192 < 14700544 + 1 / 2" "14696448 - 1 / 2 < x * 8192" using x by linarith+
  then have "rne (x * 8192) \<le> 14700544" "14696448 \<le> rne (x * 8192)"
    using rne_le [of "x * 8192" 14700544] rne_ge [of 14696448 "x * 8192"] by simp_all
  then have "real_of_int (rne (x * 8192)) \<le> 14700544" "14696448 \<le> real_of_int (rne (x * 8192))"
    by linarith+
  then have p: "1794 \<le> position_f t" "position_f t < 1795"
    unfolding position_f_def x_def [symmetric] f by simp_all
  then have "\<lfloor>position_f t\<rfloor> = 1794" by (simp add: floor_eq_iff)
  moreover have "0 \<le> position_f t" using p(1) by linarith
  ultimately show ?thesis by (simp add: goal_sent_def int_cast_def elapsed_f_5219 t_def)
qed

subsection \<open>One period apart\<close>

lemma goal_sent_floor: "goal_sent (elapsed_f now start) = \<lfloor>position_f (elapsed_f now start)\<rfloor>"
proof -
  note t = elapsed_f_bounds [of now start]
  have "0 \<le> position_f (elapsed_f now start)"
    using position_f_pos(1) [OF t(1) t(2)] by linarith
  then show ?thesis by (simp add: goal_sent_def int_cast_def)
qed

lemma elapsed_f_abs_err:
  assumes "unat (now - start) < 8192000"
  shows "\<bar>elapsed_f now start - real (unat (now - start)) / 1000\<bar> \<le> 1 / 4000"
proof -
  define n where "n = unat (now - start)"
  let ?x = "real n / 1000"
  let ?v = "to_double ?x"
  have e: "elapsed_f now start = to_float ?v" by (simp only: elapsed_f_def n_def)
  have "n \<le> 8191999" using assms by (simp add: n_def)
  then have "real n \<le> real 8191999" by (simp only: of_nat_le_iff)
  then have x: "0 \<le> ?x" "?x \<le> 8191999 / 1000" by simp_all
  then have "\<bar>?x\<bar> < 8192" by linarith
  then have "\<bar>?v - ?x\<bar> \<le> 8192 * (1 / 2 ^ 54)"
    by (rule to_double_err [OF refl, where k = 13]) simp
  then have v: "\<bar>?v - ?x\<bar> \<le> 1 / 1000000000000" by simp
  with x have "\<bar>?v\<bar> < 8192" by linarith
  then have "\<bar>to_float ?v - ?v\<bar> \<le> 8192 * (1 / 2 ^ 25)"
    by (rule to_float_err [OF refl, where k = 13]) simp
  then have "\<bar>to_float ?v - ?v\<bar> \<le> 1 / 4096" by simp
  with v have "\<bar>to_float ?v - ?x\<bar> \<le> 1 / 4000" by linarith
  then show ?thesis unfolding e by (simp only: n_def)
qed

lemma expr_periodic:
  "CENTER_POS + AMPLITUDE * sin (2 * pi * SPEED * (t + 1 / SPEED)) =
   CENTER_POS + AMPLITUDE * sin (2 * pi * SPEED * t)"
proof -
  have "2 * pi * SPEED * (t + 1 / SPEED) = 2 * pi * SPEED * t + 2 * pi"
    by (simp add: SPEED_def algebra_simps)
  then show ?thesis by simp
qed

lemma floor_diff_le_1:
  fixes a b :: real
  assumes "\<bar>a - b\<bar> < 1"
  shows "\<bar>\<lfloor>a\<rfloor> - \<lfloor>b\<rfloor>\<bar> \<le> 1"
proof -
  have "real_of_int \<lfloor>a\<rfloor> \<le> a" "a < real_of_int \<lfloor>a\<rfloor> + 1"
       "real_of_int \<lfloor>b\<rfloor> \<le> b" "b < real_of_int \<lfloor>b\<rfloor> + 1" by linarith+
  with assms have "real_of_int \<lfloor>a\<rfloor> - real_of_int \<lfloor>b\<rfloor> < 2"
    "real_of_int \<lfloor>b\<rfloor> - real_of_int \<lfloor>a\<rfloor> < 2" by linarith+
  then have "\<lfloor>a\<rfloor> - \<lfloor>b\<rfloor> < 2" "\<lfloor>b\<rfloor> - \<lfloor>a\<rfloor> < 2" by linarith+
  then show ?thesis by linarith
qed

section \<open>The claims\<close>

text \<open>
  C1 (as amended). For every two readings \<open>now\<close> and \<open>start\<close> of the tick counter,
  the goal position that is sent is the \<open>float\<close> \<open>position\<close> with its fraction
  discarded, which is its floor, \<open>position\<close> being positive: it is not rounded to the
  nearest integer. \<open>position\<close> lies within \<open>2 ^ -12\<close> of
  \<open>center + amplitude * sin (2 * pi * frequency * t)\<close> at the \<open>float\<close> \<open>t\<close>, and
  \<open>t\<close> differs from the elapsed milliseconds divided by \<open>1000\<close> by at most that
  quotient times \<open>2 ^ -23\<close>.
\<close>

theorem goal_sent_truncates:
  "goal_sent (elapsed_f now start) = \<lfloor>position_f (elapsed_f now start)\<rfloor> \<and>
   \<bar>position_f (elapsed_f now start) -
     (CENTER_POS + AMPLITUDE * sin (2 * pi * SPEED * elapsed_f now start))\<bar> \<le> 1 / 2 ^ 12 \<and>
   \<bar>elapsed_f now start - real (unat (now - start)) / 1000\<bar>
     \<le> real (unat (now - start)) / 1000 / 2 ^ 23 \<and>
   CENTER_POS = 2048 \<and> AMPLITUDE = 400 \<and> SPEED = 1 / 2"
proof -
  note t = elapsed_f_bounds [of now start]
  have "0 \<le> position_f (elapsed_f now start)"
    using position_f_pos(1) [OF t(1) t(2)] by linarith
  then have "goal_sent (elapsed_f now start) = \<lfloor>position_f (elapsed_f now start)\<rfloor>"
    by (simp add: goal_sent_def int_cast_def)
  with position_f_err [OF t(1) t(2)] t(3) show ?thesis
    by (simp only: CENTER_POS_def AMPLITUDE_def SPEED_def)
qed

text \<open>
  C1 as stated fails: a quarter of a second after the start the expression is about
  \<open>2330.84\<close>; the sketch sends \<open>2330\<close>, and rounding to the nearest integer gives
  \<open>2331\<close>.
\<close>

theorem goal_sent_not_rounded:
  "goal_sent (elapsed_f 250 0) = 2330 \<and>
   real (unat (250 - 0 :: ulong)) / 1000 = 1 / 4 \<and>
   round (CENTER_POS + AMPLITUDE * sin (2 * pi * SPEED * (1 / 4))) = 2331"
  using goal_sent_250 round_quarter by simp



text \<open>
  C4 (as amended). The expression \<open>center + amplitude * sin (2 * pi * frequency * t)\<close>
  is periodic in \<open>t\<close> with period \<open>1 / frequency\<close>, which is two seconds. The goal
  positions that are sent \<open>2000\<close> milliseconds apart differ by at most \<open>1\<close>, as long
  as the later of the two is sent less than \<open>8192\<close> seconds after the start.
\<close>

theorem goal_sent_nearly_periodic:
  assumes "unat (now - start) + 2000 < 8192000"
  shows "CENTER_POS + AMPLITUDE * sin (2 * pi * SPEED * (t + 1 / SPEED)) =
           CENTER_POS + AMPLITUDE * sin (2 * pi * SPEED * t) \<and>
         1 / SPEED = 2 \<and>
         \<bar>goal_sent (elapsed_f (now + 2000) start) - goal_sent (elapsed_f now start)\<bar> \<le> 1"
proof -
  define E where "E = (\<lambda>t. CENTER_POS + AMPLITUDE * sin (2 * pi * SPEED * t))"
  define x where "x = real (unat (now - start)) / 1000"
  define t1 where "t1 = elapsed_f now start"
  define t2 where "t2 = elapsed_f (now + 2000) start"
  have w: "now + 2000 - start = (now - start) + 2000" by simp
  have "unat (now - start) + unat (2000 :: ulong) < 2 ^ LENGTH(32)" using assms by simp
  then have "unat ((now - start) + 2000) = unat (now - start) + unat (2000 :: ulong)"
    by (simp only: unat_add_lem)
  then have u: "unat (now + 2000 - start) = unat (now - start) + 2000" by (simp only: w) simp
  have "real (unat (now + 2000 - start)) / 1000 = x + 2" by (simp add: u x_def)
  moreover have "unat (now + 2000 - start) < 8192000" using assms u by simp
  ultimately have e2: "\<bar>t2 - (x + 2)\<bar> \<le> 1 / 4000"
    using elapsed_f_abs_err [of "now + 2000" start] by (simp only: t2_def)
  have "unat (now - start) < 8192000" using assms by simp
  then have e1: "\<bar>t1 - x\<bar> \<le> 1 / 4000"
    using elapsed_f_abs_err [of now start] by (simp only: t1_def x_def)
  have per: "E (x + 2) = E x"
    using expr_periodic [of x] by (simp add: E_def SPEED_def)
  have l1: "\<bar>E t1 - E x\<bar> \<le> 1280 * \<bar>t1 - x\<bar>" unfolding E_def by (rule expr_lipschitz)
  have l2: "\<bar>E t2 - E (x + 2)\<bar> \<le> 1280 * \<bar>t2 - (x + 2)\<bar>" unfolding E_def by (rule expr_lipschitz)
  note b1 = elapsed_f_bounds [of now start, folded t1_def]
  note b2 = elapsed_f_bounds [of "now + 2000" start, folded t2_def]
  have "\<bar>position_f t1 - E t1\<bar> \<le> 1 / 2 ^ 12"
    unfolding E_def by (rule position_f_err [OF b1(1) b1(2)])
  then have p1: "\<bar>position_f t1 - E t1\<bar> \<le> 1 / 4096" by simp
  have "\<bar>position_f t2 - E t2\<bar> \<le> 1 / 2 ^ 12"
    unfolding E_def by (rule position_f_err [OF b2(1) b2(2)])
  then have p2: "\<bar>position_f t2 - E t2\<bar> \<le> 1 / 4096" by simp
  from e1 l1 have "\<bar>E t1 - E x\<bar> \<le> 32 / 100" by argo
  moreover from e2 l2 have "\<bar>E t2 - E x\<bar> \<le> 32 / 100" unfolding per by argo
  ultimately have "\<bar>position_f t2 - position_f t1\<bar> < 1" using p1 p2 by linarith
  then have "\<bar>\<lfloor>position_f t2\<rfloor> - \<lfloor>position_f t1\<rfloor>\<bar> \<le> 1" by (rule floor_diff_le_1)
  then have "\<bar>goal_sent (elapsed_f (now + 2000) start) - goal_sent (elapsed_f now start)\<bar> \<le> 1"
    by (simp only: goal_sent_floor t1_def t2_def)
  moreover have "1 / SPEED = 2" by (simp add: SPEED_def)
  ultimately show ?thesis using expr_periodic [of t] by blast
qed

theorem goal_sent_nearly_periodic_witness:
  "unat (3219 - 0 :: ulong) + 2000 < 8192000 \<and>
   \<bar>goal_sent (elapsed_f (3219 + 2000) 0) - goal_sent (elapsed_f 3219 0)\<bar> \<le> 1"
proof -
  have h: "unat (3219 - 0 :: ulong) + 2000 < 8192000" by simp
  from goal_sent_nearly_periodic [OF h] h show ?thesis by blast
qed

text \<open>
  C4 as stated fails: \<open>3219\<close> milliseconds after the start the sketch sends \<open>1793\<close>,
  and one period later, at \<open>5219\<close> milliseconds, it sends \<open>1794\<close>. The \<open>float\<close>
  \<open>t\<close> is \<open>13501465 / 2 ^ 22\<close> at the first and \<open>2736259 / 2 ^ 19\<close> at the second,
  one a little above and one a little below the exact quotient, and the expression is
  within \<open>0.0002\<close> of \<open>1794\<close> there.
\<close>

theorem goal_sent_not_periodic:
  "goal_sent (elapsed_f 3219 0) = 1793 \<and> goal_sent (elapsed_f (3219 + 2000) 0) = 1794 \<and>
   goal_sent (elapsed_f (3219 + 2000) 0) \<noteq> goal_sent (elapsed_f 3219 0)"
proof -
  have "(3219 + 2000 :: ulong) = 5219" by simp
  then show ?thesis by (simp only: goal_sent_3219 goal_sent_5219) simp
qed

text \<open>
  C5. When the motor does not answer the ping, the sketch prints the diagnostic and stays
  in the empty loop of line 30 for ever: after any number of steps the trace is the five
  calls up to the ping followed by the message, control is in the empty loop, and no call
  that enables torque, sets the operating mode or writes a goal position has been made.
\<close>

theorem ping_failure_halts:
  "pc (run False up (Suc n)) = Spin \<and>
   trace (run False up (Suc n)) =
     [SerialBegin 115200, DxlSerialBegin BAUDRATE DXL_RX_PIN DXL_TX_PIN, DxlBegin BAUDRATE,
      SetPortProtocolVersion DXL_PROTOCOL_VERSION, Ping MOTOR_ID,
      SerialPrintln ''Motor not responding. Check wiring and ID.''] \<and>
   filter drives_motor (trace (run False up m)) = [] \<and>
   step False up (run False up (Suc n)) = run False up (Suc n)"
proof -
  have "filter drives_motor (trace (run False up m)) = []"
  proof (cases m)
    case 0
    then show ?thesis by (simp add: boot_def)
  next
    case (Suc j)
    then show ?thesis by (simp only: run_False) (simp add: setup_fn_def boot_def)
  qed
  then show ?thesis
    by (simp add: run_False setup_fn_def boot_def step_def del: run.simps)
qed

text \<open>
  C6 (as amended). As long as less than \<open>2 ^ 32\<close> milliseconds have passed since the
  first read of the tick counter, the elapsed time \<open>t\<close> of a call of \<open>loop\<close> is at
  least that of the call before it, also when the counter itself wraps around in between.
\<close>

theorem elapsed_monotone:
  assumes "\<forall>k. up k \<le> up (Suc k)"
    and "up (Suc (Suc k)) - up 0 < 2 ^ 32"
  shows "iter_t up k \<le> iter_t up (Suc k)"
proof -
  have mono: "up i \<le> up j" if "i \<le> j" for i j
    using that assms(1) by (induction j) (auto simp: le_Suc_eq intro: order_trans)
  have le: "up 0 \<le> up (Suc k)" "up (Suc k) \<le> up (Suc (Suc k))" "up 0 \<le> up (Suc (Suc k))"
    by (simp_all add: mono)
  then have lt: "up (Suc k) - up 0 < 2 ^ 32"
    using assms(2) by linarith
  have "iter_t up k = real (up (Suc k) - up 0) / 1000"
    using le(1) lt by (simp add: iter_t_eq millis_def elapsed_of_nat)
  moreover have "iter_t up (Suc k) = real (up (Suc (Suc k)) - up 0) / 1000"
    using le(3) assms(2) by (simp add: iter_t_eq millis_def elapsed_of_nat)
  ultimately show ?thesis using le by simp
qed

theorem elapsed_monotone_witness:
  "(\<forall>k. late_boot k \<le> late_boot (Suc k)) \<and>
   late_boot (Suc (Suc 14)) - late_boot 0 < 2 ^ 32 \<and>
   late_boot (Suc 14) < 2 ^ 32 \<and> 2 ^ 32 \<le> late_boot (Suc (Suc 14)) \<and>
   iter_t late_boot 14 \<le> iter_t late_boot (Suc 14)"
proof -
  have h1: "\<forall>k. late_boot k \<le> late_boot (Suc k)" by (simp add: late_boot_def)
  have h2: "late_boot (Suc (Suc 14)) - late_boot 0 < 2 ^ 32" by (simp add: late_boot_def)
  have h3: "late_boot (Suc 14) < 2 ^ 32" "2 ^ 32 \<le> late_boot (Suc (Suc 14))"
    by (simp_all add: late_boot_def)
  have "iter_t late_boot 14 \<le> iter_t late_boot (Suc 14)"
    by (rule elapsed_monotone [OF h1 h2])
  with h1 h2 h3 show ?thesis by blast
qed

text \<open>
  C6 as stated fails: with the calls of \<open>loop\<close> 20 ms apart, call number \<open>214748364\<close>
  computes \<open>t = 4294967.28\<close> and the next one, the first past \<open>2 ^ 32\<close> milliseconds,
  computes \<open>t = 0.004\<close>.
\<close>

theorem elapsed_wraps:
  "iter_t every_20ms 214748364 = 4294967280 / 1000 \<and>
   iter_t every_20ms (Suc 214748364) = 4 / 1000 \<and>
   \<not> iter_t every_20ms 214748364 \<le> iter_t every_20ms (Suc 214748364)"
  by (simp add: iter_t_eq every_20ms_def millis_def elapsed_def)

text \<open>
  C7 (as amended). The start time is not assigned by \<open>setup\<close>; the first call of
  \<open>loop\<close> assigns it the value of the first read of the tick counter, and no later call
  changes it: after any number of calls it still holds that value, and the calls have
  read the counter once each and once more for the initialiser. So \<open>t\<close> is measured
  from the first call of \<open>loop\<close>. In that call \<open>t\<close> is the second read minus the first,
  which is \<open>0\<close>, and the goal position the centre, when the two reads agree.
\<close>

theorem startTime_set_once:
  "startTime_set (run True up (Suc 0)) = False \<and>
   startTime_set (run True up (Suc (Suc n))) = True \<and>
   startTime (run True up (Suc (Suc n))) = millis up 0 \<and>
   reads (run True up (Suc (Suc n))) = Suc (Suc n) \<and>
   iter_t up k = elapsed (millis up (Suc k)) (millis up 0) \<and>
   (up (Suc 0) = up 0 \<longrightarrow>
      iter_t up 0 = 0 \<and> real_of_int (goal_position (iter_t up 0)) = CENTER_POS)"
proof -
  have "iter_t up 0 = 0 \<and> real_of_int (goal_position (iter_t up 0)) = CENTER_POS"
    if "up (Suc 0) = up 0"
  proof -
    have "iter_t up 0 = 0" using that by (simp add: iter_t_eq millis_def elapsed_def)
    then show ?thesis by (simp add: goal_position_pi CENTER_POS_def)
  qed
  then show ?thesis
    using run_True_static [of up n] run_True_fresh [of up] iter_t_eq [of up k] by blast
qed

theorem startTime_set_once_witness:
  "every_20ms (Suc 0) = every_20ms 0 \<and>
   startTime (run True every_20ms (Suc (Suc 3))) = 1000 \<and>
   iter_t every_20ms 0 = 0 \<and> goal_position (iter_t every_20ms 0) = 2048"
proof -
  have h: "every_20ms (Suc 0) = every_20ms 0" by (simp add: every_20ms_def)
  have m: "millis every_20ms 0 = 1000" by (simp add: millis_def every_20ms_def)
  note inst = startTime_set_once [of every_20ms 3 0]
  from inst have "startTime (run True every_20ms (Suc (Suc 3))) = millis every_20ms 0"
    by blast
  then have s: "startTime (run True every_20ms (Suc (Suc 3))) = 1000"
    by (simp only: m)
  from inst h have z: "iter_t every_20ms 0 = 0"
    and "real_of_int (goal_position (iter_t every_20ms 0)) = CENTER_POS"
    by blast+
  then have g: "goal_position (iter_t every_20ms 0) = 2048"
    by (simp add: CENTER_POS_def)
  from h s z g show ?thesis by blast
qed

text \<open>
  C7 as stated fails: when the tick counter advances from \<open>999\<close> to \<open>1000\<close> between
  the two reads of the first call of \<open>loop\<close>, that call computes \<open>t = 0.001\<close> and sends
  the goal position \<open>2049\<close>.
\<close>

theorem first_t_not_zero:
  "iter_t ticks_1ms 0 = 1 / 1000 \<and> goal_position (iter_t ticks_1ms 0) = 2049 \<and>
   \<not> (iter_t ticks_1ms 0 = 0 \<and> real_of_int (goal_position (iter_t ticks_1ms 0)) = CENTER_POS)"
proof -
  have "iter_t ticks_1ms 0 = 1 / 1000"
    by (simp add: iter_t_eq ticks_1ms_def millis_def elapsed_def)
  then show ?thesis by (simp only: goal_milli) simp
qed

text \<open>
  C8. When the motor answers the ping, \<open>setup\<close> opens the debug port and the motor port,
  pings, switches torque off, sets the operating mode to position mode, switches torque
  on, writes the two profile values and prints; the goal positions of the calls of
  \<open>loop\<close> come only after all of that, in the order of the calls.
\<close>

theorem startup_order:
  "trace (run True up (Suc n)) =
     [SerialBegin 115200, DxlSerialBegin BAUDRATE DXL_RX_PIN DXL_TX_PIN, DxlBegin BAUDRATE,
      SetPortProtocolVersion DXL_PROTOCOL_VERSION, Ping MOTOR_ID,
      TorqueOff MOTOR_ID, SetOperatingMode MOTOR_ID OP_POSITION, TorqueOn MOTOR_ID,
      WriteControlTableItem PROFILE_VELOCITY MOTOR_ID 400,
      WriteControlTableItem PROFILE_ACCELERATION MOTOR_ID 50,
      SerialPrintln ''Sine wave motion initialized.''] @
     concat (map (\<lambda>k. [SetGoalPosition MOTOR_ID (goal_position (iter_t up k)),
                        SerialPrint ''Goal: '',
                        SerialPrintlnInt (goal_position (iter_t up k)),
                        Delay 20]) [0..<n]) \<and>
   pc (run True up (Suc n)) = At_loop"
  by (simp only: run_True_trace run_True_pc) (simp add: setup_fn_def boot_def)

text \<open>
  C9. In every call of \<open>loop\<close> the integer printed to the debug stream is the integer
  written to the motor as the goal position; over a whole run the integers printed are the
  goal positions written, in the same order.
\<close>

theorem printed_is_written:
  "(\<exists>g. trace (loop up s) = trace s @
      [SetGoalPosition MOTOR_ID g, SerialPrint ''Goal: '', SerialPrintlnInt g, Delay 20]) \<and>
   ints_printed (trace (run responds up n)) = goals_written (trace (run responds up n))"
proof -
  have one: "ints_printed (trace (loop up s)) = goals_written (trace (loop up s))"
    if "ints_printed (trace s) = goals_written (trace s)" for s
    using that by (simp add: loop_fields ints_printed_append goals_written_append)
  have "ints_printed (trace (run responds up n)) = goals_written (trace (run responds up n))"
  proof (induction n)
    case 0
    show ?case by (simp add: boot_def)
  next
    case (Suc n)
    show ?case
    proof (cases "pc (run responds up n)")
      case At_setup
      with Suc show ?thesis
        by (cases responds)
           (simp_all add: step_def setup_fn_def Let_def ints_printed_append goals_written_append)
    next
      case Spin
      with Suc show ?thesis by (simp add: step_def)
    next
      case At_loop
      with Suc one show ?thesis by (simp add: step_def)
    qed
  qed
  then show ?thesis by (simp add: loop_fields)
qed

text \<open>
  C10. When the motor answers the ping, \<open>setup\<close> switches torque off before it sets the
  operating mode, and writes \<open>PROFILE_VELOCITY = 400\<close> and \<open>PROFILE_ACCELERATION = 50\<close>:
  both writes are in the trace when \<open>setup\<close> returns, before any goal position, and no
  call of \<open>loop\<close> adds another.
\<close>

theorem setup_profile_writes:
  "TorqueOff MOTOR_ID \<in> set (takeWhile (\<lambda>e. e \<noteq> SetOperatingMode MOTOR_ID OP_POSITION)
                              (trace (run True up (Suc n)))) \<and>
   SetOperatingMode MOTOR_ID OP_POSITION \<in> set (trace (run True up (Suc n))) \<and>
   writes_of PROFILE_VELOCITY (trace (run True up (Suc 0))) = [400] \<and>
   writes_of PROFILE_ACCELERATION (trace (run True up (Suc 0))) = [50] \<and>
   goals_written (trace (run True up (Suc 0))) = [] \<and>
   writes_of PROFILE_VELOCITY (trace (run True up (Suc n))) = [400] \<and>
   writes_of PROFILE_ACCELERATION (trace (run True up (Suc n))) = [50]"
proof -
  let ?ev = "\<lambda>k. [SetGoalPosition MOTOR_ID (goal_position (iter_t up k)), SerialPrint ''Goal: '',
                    SerialPrintlnInt (goal_position (iter_t up k)), Delay 20]"
  have none: "writes_of i (concat (map ?ev [0..<m])) = []" for i m
    by (induction m) (simp_all add: writes_of_append)
  have w: "writes_of PROFILE_VELOCITY (trace (run True up (Suc m))) = [400]"
          "writes_of PROFILE_ACCELERATION (trace (run True up (Suc m))) = [50]" for m
    by (simp_all only: run_True_trace writes_of_append none) (simp_all add: setup_fn_def boot_def)
  have t: "TorqueOff MOTOR_ID \<in> set (takeWhile (\<lambda>e. e \<noteq> SetOperatingMode MOTOR_ID OP_POSITION)
                              (trace (run True up (Suc n))))"
          "SetOperatingMode MOTOR_ID OP_POSITION \<in> set (trace (run True up (Suc n)))"
    by (simp_all only: run_True_trace) (simp_all add: setup_fn_def boot_def)
  have g: "goals_written (trace (run True up (Suc 0))) = []"
    by (simp only: run_True_1) (simp add: setup_fn_def boot_def)
  from w [of 0] w [of n] t g show ?thesis by blast
qed

end
